theory Spec2Isabelle
  imports Main
begin

section \<open>Python built-ins used by app.py\<close>

text \<open>
  A Python \<open>str\<close> that comes from the environment is represented by the bytes of the
  environment value, as a \<open>string\<close>: cutting at commas, the test for emptiness and
  concatenation are the same on these bytes as on the characters they encode. Python's
  unbounded \<open>int\<close> is \<open>int\<close>.
\<close>

datatype exn = ValueError | OverflowError | OSError

text \<open>\<open>os.getenv(key)\<close> is a lookup in the process environment; the two-argument form
  supplies a default for an unset variable.\<close>

type_synonym environ = "string \<rightharpoonup> string"

definition getenv :: "environ \<Rightarrow> string \<Rightarrow> string \<Rightarrow> string" where
  "getenv env key dflt = (case env key of None \<Rightarrow> dflt | Some v \<Rightarrow> v)"

text \<open>Truth value of \<open>os.getenv(key)\<close>: \<open>None\<close> and the empty string are false.\<close>

definition truthy :: "string option \<Rightarrow> bool" where
  "truthy r = (case r of None \<Rightarrow> False | Some v \<Rightarrow> v \<noteq> [])"

text \<open>\<open>s.split(sep)\<close> for a one-character separator: never an empty list, empty
  pieces are kept.\<close>

fun py_split :: "char \<Rightarrow> string \<Rightarrow> string list" where
  "py_split sep [] = [[]]"
| "py_split sep (c # cs) =
     (if c = sep then [] # py_split sep cs
      else (case py_split sep cs of
              [] \<Rightarrow> [[c]]
            | w # ws \<Rightarrow> (c # w) # ws))"

text \<open>\<open>sep.join(pieces)\<close>, the inverse direction, used to state what \<open>split\<close> keeps.\<close>

fun py_join :: "string \<Rightarrow> string list \<Rightarrow> string" where
  "py_join sep [] = []"
| "py_join sep [w] = w"
| "py_join sep (w # v # ws) = w @ sep @ py_join sep (v # ws)"

text \<open>Two built-ins depend on the interpreter that runs the script, on its Unicode
  tables and on its limit on the number of digits of an integer literal: \<open>int(s)\<close> on a
  \<open>str\<close>, which returns an integer or raises, and \<open>repr(s)\<close> of a \<open>str\<close>. The
  interpreter is a parameter of the model.\<close>

record interpreter =
  py_int :: "string \<Rightarrow> exn + int"
  py_repr :: "string \<Rightarrow> string"

text \<open>What \<open>int(s)\<close> does in base 10 on ASCII text: surrounding whitespace (tab, line
  feed, vertical tab, form feed, carriage return, space) is dropped, one sign is allowed,
  then decimal digits, with single underscores between digits. Anything else raises
  \<open>ValueError\<close>.\<close>

definition py_isspace :: "char \<Rightarrow> bool" where
  "py_isspace c = (let n = (of_char c :: nat) in (9 \<le> n \<and> n \<le> 13) \<or> n = 32)"

definition is_digit :: "char \<Rightarrow> bool" where
  "is_digit c = (let n = (of_char c :: nat) in 48 \<le> n \<and> n \<le> 57)"

definition digit_val :: "char \<Rightarrow> int" where
  "digit_val c = int (of_char c) - 48"

definition strip :: "string \<Rightarrow> string" where
  "strip s = rev (dropWhile py_isspace (rev (dropWhile py_isspace s)))"

fun parse_digits :: "bool \<Rightarrow> int \<Rightarrow> string \<Rightarrow> int option" where
  "parse_digits prev acc [] = (if prev then Some acc else None)"
| "parse_digits prev acc (c # cs) =
     (if is_digit c then parse_digits True (10 * acc + digit_val c) cs
      else if c = CHR ''_'' \<and> prev then parse_digits False acc cs
      else None)"

definition ascii_int :: "string \<Rightarrow> exn + int" where
  "ascii_int s =
     (let body = strip s;
          r = (case body of
                 [] \<Rightarrow> None
               | c # cs \<Rightarrow>
                   if c = CHR ''+'' then parse_digits False 0 cs
                   else if c = CHR ''-'' then map_option uminus (parse_digits False 0 cs)
                   else parse_digits False 0 body)
      in case r of None \<Rightarrow> Inl ValueError | Some n \<Rightarrow> Inr n)"

text \<open>Every interpreter reads ASCII text of at most 640 characters by this grammar: the
  limit on the number of digits, where an interpreter has one, cannot be set below 640.\<close>

definition is_ascii :: "string \<Rightarrow> bool" where
  "is_ascii s = list_all (\<lambda>c. (of_char c :: nat) < 128) s"

definition int_on_ascii :: "interpreter \<Rightarrow> bool" where
  "int_on_ascii I = (\<forall>s. is_ascii s \<and> length s \<le> 640 \<longrightarrow> py_int I s = ascii_int s)"

text \<open>\<open>list(map(int, pieces))\<close>: the first piece on which \<open>int\<close> raises ends the
  evaluation with that exception.\<close>

fun map_int :: "interpreter \<Rightarrow> string list \<Rightarrow> exn + int list" where
  "map_int I [] = Inr []"
| "map_int I (s # ss) =
     (case py_int I s of
        Inl e \<Rightarrow> Inl e
      | Inr n \<Rightarrow> (case map_int I ss of Inl e \<Rightarrow> Inl e | Inr ns \<Rightarrow> Inr (n # ns)))"

text \<open>\<open>str(n)\<close> for an integer, as the f-strings format status codes and intervals.\<close>

fun digits :: "nat \<Rightarrow> string" where
  "digits n = (if n < 10 then [char_of (48 + n)] else digits (n div 10) @ [char_of (48 + n mod 10)])"

declare digits.simps [simp del]

definition py_str :: "int \<Rightarrow> string" where
  "py_str n = (if n < 0 then CHR ''-'' # digits (nat (- n)) else digits (nat n))"

text \<open>What \<open>repr(s)\<close> does on ASCII text: single quotes unless the text has a single
  quote and no double quote; the quote and the backslash are escaped, tab, line feed and
  carriage return are written with their letter escapes, other control characters as a
  two-digit hexadecimal escape.\<close>

definition hex_digit :: "nat \<Rightarrow> char" where
  "hex_digit n = (if n < 10 then char_of (48 + n) else char_of (87 + n))"

definition repr_char :: "char \<Rightarrow> char \<Rightarrow> string" where
  "repr_char quote c =
     (let n = (of_char c :: nat) in
      if c = quote \<or> c = CHR 0x5C then [CHR 0x5C, c]
      else if n = 9 then [CHR 0x5C, CHR ''t'']
      else if n = 10 then [CHR 0x5C, CHR ''n'']
      else if n = 13 then [CHR 0x5C, CHR ''r'']
      else if n < 32 \<or> n = 127 then [CHR 0x5C, CHR ''x'', hex_digit (n div 16), hex_digit (n mod 16)]
      else [c])"

definition ascii_repr :: "string \<Rightarrow> string" where
  "ascii_repr s =
     (let quote = (if CHR 0x27 \<in> set s \<and> CHR 0x22 \<notin> set s then CHR 0x22 else CHR 0x27)
      in quote # concat (map (repr_char quote) s) @ [quote])"

text \<open>The two together, for running the script on ASCII text.\<close>

definition ascii_interpreter :: interpreter where
  "ascii_interpreter = \<lparr>py_int = ascii_int, py_repr = ascii_repr\<rparr>"

text \<open>\<open>str\<close> of a list, given what \<open>repr\<close> shows for each element.\<close>

definition str_list :: "string list \<Rightarrow> string" where
  "str_list items = ''['' @ py_join '', '' items @ '']''"

text \<open>\<open>time.sleep(secs)\<close> with an integer argument: CPython converts the length to a
  64-bit count of nanoseconds (\<open>OverflowError\<close> when it does not fit) and refuses a
  negative length with \<open>ValueError\<close>; then it asks the operating system's clock to
  suspend the thread. The clock can refuse (\<open>OSError\<close>), as it does when the time of the
  call plus the length is beyond what it can represent; whether it accepts is an input
  of the model, \<open>clock_ok\<close>, given for each call.\<close>

definition time_sleep :: "bool \<Rightarrow> int \<Rightarrow> exn + unit" where
  "time_sleep clock_ok secs =
     (if secs < - 9223372036 \<or> 9223372036 < secs then Inl OverflowError
      else if secs < 0 then Inl ValueError
      else if clock_ok then Inr ()
      else Inl OSError)"

section \<open>Module globals (app.py lines 12 to 14)\<close>

record globals =
  SERVICE_NAME :: string
  TARGETS :: "string list"
  INTERVALS :: "int list"

text \<open>Executing the module's top level: the three assignments, in order. The only one
  that can raise is the third.\<close>

definition load_module :: "interpreter \<Rightarrow> environ \<Rightarrow> exn + globals" where
  "load_module I env =
     (let service_name = getenv env ''SERVICE_NAME'' ''unknown'';
          targets = (if truthy (env ''TARGETS'')
                     then py_split CHR '','' (getenv env ''TARGETS'' [])
                     else [])
      in case map_int I (py_split CHR '','' (getenv env ''INTERVALS'' ''60'')) of
           Inl e \<Rightarrow> Inl e
         | Inr intervals \<Rightarrow>
             Inr \<lparr>SERVICE_NAME = service_name, TARGETS = targets, INTERVALS = intervals\<rparr>)"

section \<open>The two routes\<close>

datatype json =
  JString string
| JNumber int
| JArray "json list"
| JObject "(string \<times> json) list"

type_synonym response = "json \<times> nat"

definition health :: "globals \<Rightarrow> response" where
  "health g = (JObject [(''status'', JString ''healthy''), (''service'', JString (SERVICE_NAME g))], 200)"

definition index :: "globals \<Rightarrow> response" where
  "index g =
     (JObject [(''service'', JString (SERVICE_NAME g)),
               (''message'', JString (''Hello from '' @ SERVICE_NAME g @ ''!'')),
               (''targets'', JArray (map JString (TARGETS g))),
               (''intervals'', JArray (map JNumber (INTERVALS g)))], 200)"

section \<open>Effects\<close>

text \<open>What the code does to the outside world, in the order it does it: log records
  (\<open>logging.info\<close>, \<open>logging.error\<close>), the outbound \<open>requests.get(url, timeout)\<close>, a sleep
  of \<open>secs\<close> seconds (a call of \<open>time.sleep(secs)\<close> that returned), the start of a daemon
  thread running \<open>make_request(target, interval)\<close>, and \<open>app.run(host, port)\<close>.\<close>

datatype effect =
  LogInfo string
| LogError string
| HttpGet string nat
| Sleep int
| ThreadStart string int
| AppRun string nat

text \<open>What \<open>requests.get\<close> does on one call: it returns a response carrying a status
  code, or it raises an exception \<open>e\<close>, given here by \<open>str(e)\<close>.\<close>

datatype get_result = Response int | Raised string

text \<open>What one iteration of the poll loop meets: the outcome of its GET, and whether the
  clock accepts its sleep.\<close>

type_synonym tick = "get_result \<times> bool"

section \<open>make\_request\<close>

text \<open>The body of the \<open>try\<close> statement with its handler, for one outcome of the GET.\<close>

definition try_request :: "globals \<Rightarrow> string \<Rightarrow> get_result \<Rightarrow> effect list" where
  "try_request g target r =
     [LogInfo (''['' @ SERVICE_NAME g @ ''] Calling '' @ target @ ''...''),
      HttpGet (''http://'' @ target) 5] @
     (case r of
        Response status_code \<Rightarrow>
          [LogInfo (''['' @ SERVICE_NAME g @ ''] Response from '' @ target @ '': '' @ py_str status_code)]
      | Raised e \<Rightarrow>
          [LogError (''['' @ SERVICE_NAME g @ ''] Error calling '' @ target @ '': '' @ e)])"

text \<open>The loop \<open>while True\<close> never exits by itself, so it is run against what its
  iterations will meet, one \<open>tick\<close> per iteration. \<open>Running\<close>: every tick given has been
  consumed and the thread is back at the head of the loop, about to make the next call.
  \<open>Died e\<close>: exception \<open>e\<close> left the loop and ended the thread. The only statement
  outside the \<open>try\<close> is \<open>time.sleep(interval)\<close>.\<close>

datatype task_status = Running | Died exn

fun make_request :: "globals \<Rightarrow> string \<Rightarrow> int \<Rightarrow> tick list \<Rightarrow> effect list \<times> task_status" where
  "make_request g target interval [] = ([], Running)"
| "make_request g target interval ((r, clock_ok) # ticks) =
     (case time_sleep clock_ok interval of
        Inl e \<Rightarrow> (try_request g target r, Died e)
      | Inr _ \<Rightarrow>
          (case make_request g target interval ticks of
             (later, status) \<Rightarrow> (try_request g target r @ [Sleep interval] @ later, status)))"

section \<open>start\_periodic\_calls\<close>

fun start_loop :: "globals \<Rightarrow> (nat \<times> string) list \<Rightarrow> effect list" where
  "start_loop g [] = []"
| "start_loop g ((i, target) # rest) =
     (if target \<noteq> [] then
        (let interval = (if i < length (INTERVALS g) then INTERVALS g ! i else 60) in
         [ThreadStart target interval,
          LogInfo (''['' @ SERVICE_NAME g @ ''] Started periodic calls to '' @ target @
                   '' every '' @ py_str interval @ ''s'')] @
         start_loop g rest)
      else start_loop g rest)"

definition start_periodic_calls :: "globals \<Rightarrow> effect list" where
  "start_periodic_calls g = start_loop g (enumerate 0 (TARGETS g))"

text \<open>The poll tasks: the \<open>(target, interval)\<close> arguments of the threads started.\<close>

fun threads_of :: "effect list \<Rightarrow> (string \<times> int) list" where
  "threads_of [] = []"
| "threads_of (ThreadStart target interval # es) = (target, interval) # threads_of es"
| "threads_of (e # es) = threads_of es"

section \<open>The script\<close>

text \<open>Running \<open>app.py\<close> as a script: the module's top level, then the block under
  \<open>__name__ == '__main__'\<close>. An exception at the top level ends the process before that
  block is reached.\<close>

datatype process = Crashed exn | Serving globals "effect list"

definition main :: "interpreter \<Rightarrow> environ \<Rightarrow> process" where
  "main I env =
     (case load_module I env of
        Inl e \<Rightarrow> Crashed e
      | Inr g \<Rightarrow>
          Serving g
            ([LogInfo (''Starting '' @ SERVICE_NAME g @ ''...''),
              LogInfo (''Targets: '' @ str_list (map (py_repr I) (TARGETS g))),
              LogInfo (''Intervals: '' @ str_list (map py_str (INTERVALS g)))] @
             start_periodic_calls g @
             [AppRun ''0.0.0.0'' 8080]))"

text \<open>The running process: the module globals and, for each poll thread, what it has
  done so far. Each thread runs \<open>make_request\<close> on its own arguments against its own
  ticks. A GET request to the server is dispatched on its path to the view
  function registered for it (\<open>None\<close>: no rule matches).\<close>

record process_state =
  module_globals :: globals
  pollers :: "(effect list \<times> task_status) list"

definition run_pool :: "globals \<Rightarrow> (string \<times> int) list \<Rightarrow> tick list list \<Rightarrow> (effect list \<times> task_status) list" where
  "run_pool g threads outcomes =
     map (\<lambda>((target, interval), ticks). make_request g target interval ticks) (zip threads outcomes)"

definition app_get :: "process_state \<Rightarrow> string \<Rightarrow> response option" where
  "app_get ps path =
     (if path = ''/health'' then Some (health (module_globals ps))
      else if path = ''/'' then Some (index (module_globals ps))
      else None)"

text \<open>The data model's constraint on intervals, as a test on a list: every element is
  positive.\<close>

definition all_positive :: "int list \<Rightarrow> bool" where
  "all_positive ns = list_all ((<) 0) ns"

section \<open>Facts about the built-ins\<close>

lemma py_split_nonempty: "py_split sep s \<noteq> []"
  by (induction s) (auto split: list.splits)

lemma py_join_Cons_char: "py_join sep ((c # w) # ws) = c # py_join sep (w # ws)"
  by (cases ws) auto

lemma py_join_split: "py_join [sep] (py_split sep s) = s"
proof (induction s)
  case Nil
  show ?case by simp
next
  case (Cons c cs)
  obtain w ws where ws: "py_split sep cs = w # ws"
    using py_split_nonempty [of sep cs] by (cases "py_split sep cs") auto
  show ?case
  proof (cases "c = sep")
    case True
    with ws Cons.IH show ?thesis by simp
  next
    case False
    with ws Cons.IH show ?thesis by (simp add: py_join_Cons_char)
  qed
qed

lemma py_split_no_sep: "w \<in> set (py_split sep s) \<Longrightarrow> sep \<notin> set w"
proof (induction s arbitrary: w)
  case Nil
  then show ?case by simp
next
  case (Cons c cs)
  obtain v vs where vs: "py_split sep cs = v # vs"
    using py_split_nonempty [of sep cs] by (cases "py_split sep cs") auto
  show ?case
  proof (cases "c = sep")
    case True
    with Cons show ?thesis by auto
  next
    case False
    with Cons.prems vs have "w = c # v \<or> w \<in> set vs" by auto
    then show ?thesis
    proof
      assume "w = c # v"
      moreover have "sep \<notin> set v" using Cons.IH [of v] vs by simp
      ultimately show ?thesis using False by auto
    next
      assume "w \<in> set vs"
      then show ?thesis using Cons.IH [of w] vs by simp
    qed
  qed
qed

lemma length_py_split: "length (py_split sep s) = Suc (count_list s sep)"
proof (induction s)
  case Nil
  show ?case by simp
next
  case (Cons c cs)
  obtain v vs where vs: "py_split sep cs = v # vs"
    using py_split_nonempty [of sep cs] by (cases "py_split sep cs") auto
  with Cons.IH show ?case by auto
qed

lemma map_int_Inr: "map_int I ss = Inr ns \<longleftrightarrow> map (py_int I) ss = map Inr ns"
proof (induction ss arbitrary: ns)
  case Nil
  show ?case by auto
next
  case (Cons s ss)
  show ?case
  proof (cases "py_int I s")
    case (Inl e)
    then show ?thesis by (cases ns) auto
  next
    case (Inr n)
    show ?thesis
    proof (cases "map_int I ss")
      case (Inl e)
      with Inr Cons.IH show ?thesis by (cases ns) auto
    next
      case r: (Inr ms)
      with Inr Cons.IH [of ms] Cons.IH show ?thesis by (cases ns) auto
    qed
  qed
qed

lemma map_int_Inl: "(\<exists>e. map_int I ss = Inl e) \<longleftrightarrow> (\<exists>s \<in> set ss. isl (py_int I s))"
proof (induction ss)
  case Nil
  show ?case by simp
next
  case (Cons s ss)
  show ?case
  proof (cases "py_int I s")
    case (Inl e)
    then show ?thesis by auto
  next
    case (Inr n)
    with Cons.IH show ?thesis by (cases "map_int I ss") auto
  qed
qed

lemma digit_val_nonneg: "is_digit c \<Longrightarrow> 0 \<le> digit_val c"
  by (simp add: is_digit_def digit_val_def Let_def)

lemma digit_val_pos: "is_digit c \<Longrightarrow> c \<noteq> CHR ''0'' \<Longrightarrow> 0 < digit_val c"
proof -
  assume d: "is_digit c" and n: "c \<noteq> CHR ''0''"
  have "(of_char c :: nat) \<noteq> 48"
  proof
    assume "(of_char c :: nat) = 48"
    then have "(of_char c :: nat) = of_char CHR ''0''" by simp
    then have "c = CHR ''0''" by (simp only: of_char_eq_iff)
    with n show False by simp
  qed
  with d show ?thesis by (simp add: is_digit_def digit_val_def Let_def)
qed

lemma digit_val_zero: "digit_val CHR ''0'' = 0"
  by (simp add: digit_val_def)

lemma parse_digits_chars:
  "parse_digits p a cs = Some n \<Longrightarrow> c \<in> set cs \<Longrightarrow> is_digit c \<or> c = CHR ''_''"
  by (induction cs arbitrary: p a) (auto split: if_splits)

lemma parse_digits_ge: "parse_digits p a cs = Some n \<Longrightarrow> 0 \<le> a \<Longrightarrow> a \<le> n"
proof (induction cs arbitrary: p a)
  case Nil
  then show ?case by (simp split: if_splits)
next
  case (Cons c cs)
  show ?case
  proof (cases "is_digit c")
    case True
    with Cons.prems have "parse_digits True (10 * a + digit_val c) cs = Some n" by simp
    moreover from True Cons.prems have "0 \<le> 10 * a + digit_val c"
      using digit_val_nonneg [of c] by simp
    ultimately have "10 * a + digit_val c \<le> n" by (rule Cons.IH)
    with Cons.prems digit_val_nonneg [OF True] show ?thesis by simp
  next
    case False
    with Cons.prems have "parse_digits False a cs = Some n" by (simp split: if_splits)
    then show ?thesis using Cons.prems(2) by (rule Cons.IH)
  qed
qed

lemma parse_digits_pos:
  "parse_digits p a cs = Some n \<Longrightarrow> 0 \<le> a \<Longrightarrow> \<exists>c \<in> set cs. is_digit c \<and> c \<noteq> CHR ''0'' \<Longrightarrow> 0 < n"
proof (induction cs arbitrary: p a)
  case Nil
  then show ?case by simp
next
  case (Cons c cs)
  show ?case
  proof (cases "is_digit c")
    case True
    with Cons.prems have step: "parse_digits True (10 * a + digit_val c) cs = Some n" by simp
    from True Cons.prems have nonneg: "0 \<le> 10 * a + digit_val c"
      using digit_val_nonneg [of c] by simp
    show ?thesis
    proof (cases "c = CHR ''0''")
      case False
      with True have "0 < digit_val c" by (rule digit_val_pos)
      with Cons.prems(2) have "0 < 10 * a + digit_val c" by simp
      moreover from step nonneg have "10 * a + digit_val c \<le> n" by (rule parse_digits_ge)
      ultimately show ?thesis by simp
    next
      case z: True
      with Cons.prems(3) have "\<exists>c \<in> set cs. is_digit c \<and> c \<noteq> CHR ''0''" by auto
      with step nonneg show ?thesis by (rule Cons.IH)
    qed
  next
    case False
    with Cons.prems have step: "parse_digits False a cs = Some n" by (simp split: if_splits)
    from False Cons.prems(3) have "\<exists>c \<in> set cs. is_digit c \<and> c \<noteq> CHR ''0''" by auto
    with step Cons.prems(2) show ?thesis by (rule Cons.IH)
  qed
qed

lemma parse_digits_zero:
  "parse_digits p 0 cs = Some n \<Longrightarrow> \<forall>c \<in> set cs. is_digit c \<longrightarrow> c = CHR ''0'' \<Longrightarrow> n = 0"
proof (induction cs arbitrary: p)
  case Nil
  then show ?case by (simp split: if_splits)
next
  case (Cons c cs)
  show ?case
  proof (cases "is_digit c")
    case True
    with Cons.prems(2) have "c = CHR ''0''" by simp
    with True Cons.prems(1) have "parse_digits True 0 cs = Some n" by (simp add: digit_val_zero)
    then show ?thesis using Cons.prems(2) by (intro Cons.IH) auto
  next
    case False
    with Cons.prems(1) have "parse_digits False 0 cs = Some n" by (simp split: if_splits)
    then show ?thesis using Cons.prems(2) by (intro Cons.IH) auto
  qed
qed

lemma parse_digits_sign:
  assumes "parse_digits p 0 cs = Some n"
  shows "0 \<le> n" and "0 < n \<longleftrightarrow> (\<exists>c \<in> set cs. is_digit c \<and> c \<noteq> CHR ''0'')"
proof -
  from assms show "0 \<le> n" using parse_digits_ge [of p 0 cs n] by simp
  show "0 < n \<longleftrightarrow> (\<exists>c \<in> set cs. is_digit c \<and> c \<noteq> CHR ''0'')"
  proof
    assume "0 < n"
    show "\<exists>c \<in> set cs. is_digit c \<and> c \<noteq> CHR ''0''"
    proof (rule ccontr)
      assume "\<not> (\<exists>c \<in> set cs. is_digit c \<and> c \<noteq> CHR ''0'')"
      then have "\<forall>c \<in> set cs. is_digit c \<longrightarrow> c = CHR ''0''" by blast
      with assms have "n = 0" by (rule parse_digits_zero)
      with \<open>0 < n\<close> show False by simp
    qed
  next
    assume "\<exists>c \<in> set cs. is_digit c \<and> c \<noteq> CHR ''0''"
    with assms show "0 < n" using parse_digits_pos [of p 0 cs n] by simp
  qed
qed

lemma set_strip: "set (strip s) \<subseteq> set s"
proof -
  have "set (strip s) = set (dropWhile py_isspace (rev (dropWhile py_isspace s)))"
    by (simp add: strip_def)
  also have "\<dots> \<subseteq> set (rev (dropWhile py_isspace s))" by (auto dest: set_dropWhileD)
  also have "\<dots> \<subseteq> set s" by (auto dest: set_dropWhileD)
  finally show ?thesis .
qed

lemma in_dropWhile: "c \<in> set xs \<Longrightarrow> \<not> P c \<Longrightarrow> c \<in> set (dropWhile P xs)"
  by (induction xs) auto

lemma in_strip: "c \<in> set s \<Longrightarrow> \<not> py_isspace c \<Longrightarrow> c \<in> set (strip s)"
  by (simp add: strip_def in_dropWhile)

lemma strip_mem_iff: "\<not> py_isspace c \<Longrightarrow> c \<in> set (strip s) \<longleftrightarrow> c \<in> set s"
  using set_strip [of s] in_strip [of c s] by blast

lemma digit_not_space: "is_digit c \<Longrightarrow> \<not> py_isspace c"
  by (auto simp: is_digit_def py_isspace_def Let_def)

lemma ascii_int_positive:
  assumes "ascii_int s = Inr n"
  shows "0 < n \<longleftrightarrow> CHR ''-'' \<notin> set s \<and> (\<exists>c \<in> set s. is_digit c \<and> c \<noteq> CHR ''0'')"
proof -
  let ?nz = "\<lambda>xs. \<exists>c \<in> set xs. is_digit c \<and> c \<noteq> CHR ''0''"
  have minus: "CHR ''-'' \<in> set (strip s) \<longleftrightarrow> CHR ''-'' \<in> set s"
    by (rule strip_mem_iff) (simp add: py_isspace_def)
  have nz: "?nz (strip s) \<longleftrightarrow> ?nz s"
    using strip_mem_iff digit_not_space by blast
  have nd: "\<not> is_digit CHR ''-''" "\<not> is_digit CHR ''+''" by (simp_all add: is_digit_def)
  show ?thesis
  proof (cases "strip s")
    case Nil
    with assms show ?thesis by (simp add: ascii_int_def)
  next
    case (Cons c cs)
    consider (plus) "c = CHR ''+''" | (minus) "c = CHR ''-''" | (digit) "c \<noteq> CHR ''+''" "c \<noteq> CHR ''-''"
      by blast
    then show ?thesis
    proof cases
      case plus
      with assms Cons have p: "parse_digits False 0 cs = Some n"
        by (simp add: ascii_int_def split: option.splits)
      from parse_digits_chars [OF p] nd have "CHR ''-'' \<notin> set cs" by auto
      with plus Cons minus have m: "CHR ''-'' \<notin> set s" by simp
      from plus Cons nd have "?nz (strip s) \<longleftrightarrow> ?nz cs" by simp
      with parse_digits_sign(2) [OF p] nz m show ?thesis by simp
    next
      case minus
      with assms Cons obtain m where p: "parse_digits False 0 cs = Some m" and n: "n = - m"
        by (auto simp: ascii_int_def split: option.splits)
      from parse_digits_sign(1) [OF p] n have "\<not> 0 < n" by simp
      moreover from minus Cons \<open>CHR ''-'' \<in> set (strip s) \<longleftrightarrow> CHR ''-'' \<in> set s\<close>
      have "CHR ''-'' \<in> set s" by simp
      ultimately show ?thesis by simp
    next
      case digit
      with assms Cons have p: "parse_digits False 0 (c # cs) = Some n"
        by (simp add: ascii_int_def del: parse_digits.simps split: option.splits)
      from parse_digits_chars [OF p] nd have "CHR ''-'' \<notin> set (c # cs)" by auto
      with Cons minus have m: "CHR ''-'' \<notin> set s" by simp
      from parse_digits_sign(2) [OF p] Cons nz m show ?thesis by simp
    qed
  qed
qed


section \<open>Loading the configuration\<close>

lemmas load_eval = load_module_def getenv_def truthy_def ascii_interpreter_def ascii_int_def
  strip_def py_isspace_def is_digit_def digit_val_def

lemma int_on_ascii_interpreter: "int_on_ascii ascii_interpreter"
  by (simp add: int_on_ascii_def ascii_interpreter_def)

lemma int_on_ascii_60: "int_on_ascii I \<Longrightarrow> py_int I ''60'' = Inr 60"
proof -
  assume a: "int_on_ascii I"
  have "is_ascii ''60'' \<and> length ''60'' \<le> 640" by (simp add: is_ascii_def)
  with a have "py_int I ''60'' = ascii_int ''60''" unfolding int_on_ascii_def by blast
  also have "\<dots> = Inr 60"
    by (simp add: ascii_int_def strip_def py_isspace_def is_digit_def digit_val_def)
  finally show ?thesis .
qed

lemma map_int_Inl_elem: "map_int I ss = Inl e \<Longrightarrow> \<exists>s \<in> set ss. py_int I s = Inl e"
proof (induction ss)
  case Nil
  then show ?case by simp
next
  case (Cons s ss)
  then show ?case by (cases "py_int I s"; cases "map_int I ss") auto
qed

lemmas int_eval = ascii_interpreter_def ascii_int_def strip_def py_isspace_def is_digit_def
  digit_val_def

lemma load_module_Inr:
  assumes "load_module I env = Inr g"
  shows "SERVICE_NAME g = getenv env ''SERVICE_NAME'' ''unknown''"
    and "TARGETS g = (if truthy (env ''TARGETS'') then py_split CHR '','' (getenv env ''TARGETS'' []) else [])"
    and "map_int I (py_split CHR '','' (getenv env ''INTERVALS'' ''60'')) = Inr (INTERVALS g)"
  using assms by (auto simp: load_module_def Let_def split: sum.splits)

lemma load_module_map_int:
  "load_module I env =
     (case map_int I (py_split CHR '','' (getenv env ''INTERVALS'' ''60'')) of
        Inl e \<Rightarrow> Inl e
      | Inr ns \<Rightarrow> Inr \<lparr>SERVICE_NAME = getenv env ''SERVICE_NAME'' ''unknown'',
                       TARGETS = (if truthy (env ''TARGETS'')
                                  then py_split CHR '','' (getenv env ''TARGETS'' []) else []),
                       INTERVALS = ns\<rparr>)"
  by (simp add: load_module_def Let_def)

lemma main_Inl: "load_module I env = Inl e \<Longrightarrow> main I env = Crashed e"
  by (simp add: main_def)

lemma main_Inr:
  "load_module I env = Inr g \<Longrightarrow> \<exists>effects. main I env = Serving g (effects @ [AppRun ''0.0.0.0'' 8080])"
  by (simp add: main_def)

text \<open>
  Claim C10. Whenever the module loads, the parsed intervals list has exactly as many
  elements as the comma-split of the \<open>INTERVALS\<close> value (\<open>60\<close> when the variable is unset)
  has pieces, and a split never yields an empty list: the intervals list has length at
  least 1.
\<close>

theorem intervals_never_empty:
  assumes "load_module I env = Inr g"
  shows "length (INTERVALS g) = length (py_split CHR '','' (getenv env ''INTERVALS'' ''60''))
    \<and> 1 \<le> length (INTERVALS g)"
proof -
  let ?pieces = "py_split CHR '','' (getenv env ''INTERVALS'' ''60'')"
  from assms have "map_int I ?pieces = Inr (INTERVALS g)" by (rule load_module_Inr)
  then have "map (py_int I) ?pieces = map Inr (INTERVALS g)" by (simp only: map_int_Inr)
  then have len: "length (INTERVALS g) = length ?pieces" by (metis length_map)
  have "?pieces \<noteq> []" by (rule py_split_nonempty)
  then have "1 \<le> length ?pieces" by (cases ?pieces) auto
  with len show ?thesis by simp
qed

theorem intervals_never_empty_witness:
  "load_module ascii_interpreter Map.empty =
     Inr \<lparr>SERVICE_NAME = ''unknown'', TARGETS = [], INTERVALS = [60]\<rparr>
   \<and> length (INTERVALS \<lparr>SERVICE_NAME = ''unknown'', TARGETS = [], INTERVALS = [60]\<rparr>) =
       length (py_split CHR '','' (getenv Map.empty ''INTERVALS'' ''60''))
   \<and> 1 \<le> length (INTERVALS \<lparr>SERVICE_NAME = ''unknown'', TARGETS = [], INTERVALS = [60]\<rparr>)"
proof -
  have h: "load_module ascii_interpreter Map.empty =
      Inr \<lparr>SERVICE_NAME = ''unknown'', TARGETS = [], INTERVALS = [60]\<rparr>"
    by (simp add: load_eval)
  from intervals_never_empty [OF h] h show ?thesis by simp
qed

text \<open>
  Claim C8. When the module loads: with \<open>TARGETS\<close> unset, or set to the empty string, the
  targets list is empty (not a list holding one empty string); otherwise it is the
  comma-split of the value. The split keeps order and empty entries: joining the pieces
  with commas gives the value back, no piece contains a comma, and there is one more
  piece than there are commas.
\<close>

theorem targets_parsing:
  assumes "load_module I env = Inr g"
  shows "(case env ''TARGETS'' of
            None \<Rightarrow> TARGETS g = []
          | Some v \<Rightarrow>
              if v = [] then TARGETS g = []
              else TARGETS g = py_split CHR '','' v
                 \<and> py_join '','' (TARGETS g) = v
                 \<and> list_all (\<lambda>t. CHR '','' \<notin> set t) (TARGETS g)
                 \<and> length (TARGETS g) = Suc (count_list v CHR '',''))"
proof (cases "env ''TARGETS''")
  case None
  with load_module_Inr(2) [OF assms] show ?thesis by (simp add: truthy_def)
next
  case (Some v)
  show ?thesis
  proof (cases "v = []")
    case True
    with Some load_module_Inr(2) [OF assms] show ?thesis by (simp add: truthy_def)
  next
    case False
    with Some load_module_Inr(2) [OF assms]
    have t: "TARGETS g = py_split CHR '','' v" by (simp add: truthy_def getenv_def)
    have "py_join '','' (py_split CHR '','' v) = v" by (rule py_join_split)
    moreover have "list_all (\<lambda>t. CHR '','' \<notin> set t) (py_split CHR '','' v)"
      by (simp add: list_all_iff py_split_no_sep)
    moreover have "length (py_split CHR '','' v) = Suc (count_list v CHR '','')"
      by (rule length_py_split)
    ultimately show ?thesis using Some False t by simp
  qed
qed

theorem targets_parsing_witness:
  "TARGETS \<lparr>SERVICE_NAME = ''unknown'', TARGETS = [], INTERVALS = [60]\<rparr> = []
   \<and> TARGETS \<lparr>SERVICE_NAME = ''unknown'', TARGETS = [''a'', [], ''b''], INTERVALS = [60]\<rparr> = [''a'', [], ''b'']
   \<and> load_module ascii_interpreter (Map.empty(''TARGETS'' \<mapsto> ''a,,b'')) =
        Inr \<lparr>SERVICE_NAME = ''unknown'', TARGETS = [''a'', [], ''b''], INTERVALS = [60]\<rparr>
   \<and> load_module ascii_interpreter (Map.empty(''TARGETS'' \<mapsto> [])) =
        Inr \<lparr>SERVICE_NAME = ''unknown'', TARGETS = [], INTERVALS = [60]\<rparr>
   \<and> load_module ascii_interpreter Map.empty =
        Inr \<lparr>SERVICE_NAME = ''unknown'', TARGETS = [], INTERVALS = [60]\<rparr>"
proof -
  have h1: "load_module ascii_interpreter Map.empty = Inr \<lparr>SERVICE_NAME = ''unknown'', TARGETS = [], INTERVALS = [60]\<rparr>"
    by (simp add: load_eval)
  have h2: "load_module ascii_interpreter (Map.empty(''TARGETS'' \<mapsto> [])) =
        Inr \<lparr>SERVICE_NAME = ''unknown'', TARGETS = [], INTERVALS = [60]\<rparr>"
    by (simp add: load_eval)
  have h3: "load_module ascii_interpreter (Map.empty(''TARGETS'' \<mapsto> ''a,,b'')) =
        Inr \<lparr>SERVICE_NAME = ''unknown'', TARGETS = [''a'', [], ''b''], INTERVALS = [60]\<rparr>"
    by (simp add: load_eval)
  from targets_parsing [OF h1] targets_parsing [OF h2] targets_parsing [OF h3] h1 h2 h3
  show ?thesis by simp
qed

text \<open>
  Claim C5. For every interpreter (one that reads ASCII literals by the ASCII grammar):
  with \<open>INTERVALS\<close> unset the module loads with intervals \<open>[60]\<close>. With \<open>INTERVALS\<close> set,
  the value is comma-split and each piece is given to \<open>int\<close>: when \<open>int\<close> returns for
  every piece, the module loads, the intervals are the values returned, in order, and the
  script goes on to \<open>app.run\<close>; when \<open>int\<close> raises on some piece, loading raises that
  exception and the script ends there, without starting a thread or the server.
\<close>

theorem intervals_parsing:
  assumes "int_on_ascii I"
  shows "(case env ''INTERVALS'' of
      None \<Rightarrow> (\<exists>g. load_module I env = Inr g \<and> INTERVALS g = [60])
    | Some v \<Rightarrow>
        if list_all (\<lambda>s. \<not> isl (py_int I s)) (py_split CHR '','' v)
        then \<exists>g. load_module I env = Inr g
               \<and> map Inr (INTERVALS g) = map (py_int I) (py_split CHR '','' v)
               \<and> (\<exists>effects. main I env = Serving g (effects @ [AppRun ''0.0.0.0'' 8080]))
        else \<exists>e. load_module I env = Inl e \<and> main I env = Crashed e
               \<and> (\<exists>s \<in> set (py_split CHR '','' v). py_int I s = Inl e))"
proof (cases "env ''INTERVALS''")
  case None
  then have "getenv env ''INTERVALS'' ''60'' = ''60''" by (simp add: getenv_def)
  then have "map_int I (py_split CHR '','' (getenv env ''INTERVALS'' ''60'')) = Inr [60]"
    using int_on_ascii_60 [OF assms] by simp
  then show ?thesis using None by (simp add: load_module_map_int)
next
  case (Some v)
  let ?pieces = "py_split CHR '','' v"
  from Some have ge: "getenv env ''INTERVALS'' ''60'' = v" by (simp add: getenv_def)
  show ?thesis
  proof (cases "list_all (\<lambda>s. \<not> isl (py_int I s)) ?pieces")
    case True
    have "\<exists>ns. map_int I ?pieces = Inr ns"
    proof (cases "map_int I ?pieces")
      case (Inl e)
      then have "\<exists>e. map_int I ?pieces = Inl e" by blast
      then have "\<exists>s \<in> set ?pieces. isl (py_int I s)" by (simp only: map_int_Inl)
      with True show ?thesis by (auto simp: list_all_iff)
    next
      case (Inr ns)
      then show ?thesis by blast
    qed
    then obtain ns where ns: "map_int I ?pieces = Inr ns" ..
    define g where "g = \<lparr>SERVICE_NAME = getenv env ''SERVICE_NAME'' ''unknown'',
                       TARGETS = (if truthy (env ''TARGETS'')
                                  then py_split CHR '','' (getenv env ''TARGETS'' []) else []),
                       INTERVALS = ns\<rparr>"
    from ns ge have l: "load_module I env = Inr g" by (simp add: load_module_map_int g_def)
    from ns have "map Inr (INTERVALS g) = map (py_int I) ?pieces" by (simp add: map_int_Inr g_def)
    with l main_Inr [OF l] show ?thesis using Some True by auto
  next
    case False
    then have "\<exists>s \<in> set ?pieces. isl (py_int I s)" by (auto simp: list_all_iff)
    then have "\<exists>e. map_int I ?pieces = Inl e" by (simp only: map_int_Inl)
    then obtain e where e: "map_int I ?pieces = Inl e" ..
    with ge have l: "load_module I env = Inl e" by (simp add: load_module_map_int)
    from e have "\<exists>s \<in> set ?pieces. py_int I s = Inl e" by (rule map_int_Inl_elem)
    with l main_Inl [OF l] show ?thesis using Some False by auto
  qed
qed

theorem intervals_parsing_witness:
  "int_on_ascii ascii_interpreter
   \<and> (\<exists>g. load_module ascii_interpreter Map.empty = Inr g \<and> INTERVALS g = [60])
   \<and> (\<exists>g. load_module ascii_interpreter (Map.empty(''INTERVALS'' \<mapsto> ''5, 10'')) = Inr g
          \<and> INTERVALS g = [5, 10]
          \<and> (\<exists>effects. main ascii_interpreter (Map.empty(''INTERVALS'' \<mapsto> ''5, 10'')) =
                Serving g (effects @ [AppRun ''0.0.0.0'' 8080])))
   \<and> main ascii_interpreter (Map.empty(''INTERVALS'' \<mapsto> ''5,x'')) = Crashed ValueError
   \<and> main ascii_interpreter (Map.empty(''INTERVALS'' \<mapsto> [])) = Crashed ValueError"
proof -
  note i = int_on_ascii_interpreter
  have a: "\<exists>g. load_module ascii_interpreter Map.empty = Inr g \<and> INTERVALS g = [60]"
    using intervals_parsing [OF i, of Map.empty] by simp
  have b: "\<exists>g. load_module ascii_interpreter (Map.empty(''INTERVALS'' \<mapsto> ''5, 10'')) = Inr g
          \<and> INTERVALS g = [5, 10]
          \<and> (\<exists>effects. main ascii_interpreter (Map.empty(''INTERVALS'' \<mapsto> ''5, 10'')) =
                Serving g (effects @ [AppRun ''0.0.0.0'' 8080]))"
    using intervals_parsing [OF i, of "Map.empty(''INTERVALS'' \<mapsto> ''5, 10'')"]
    by (simp add: int_eval map_eq_Cons_conv)
  have "\<exists>e. load_module ascii_interpreter (Map.empty(''INTERVALS'' \<mapsto> ''5,x'')) = Inl e
     \<and> main ascii_interpreter (Map.empty(''INTERVALS'' \<mapsto> ''5,x'')) = Crashed e"
    using intervals_parsing [OF i, of "Map.empty(''INTERVALS'' \<mapsto> ''5,x'')"]
    by (simp add: int_eval)
  moreover have "load_module ascii_interpreter (Map.empty(''INTERVALS'' \<mapsto> ''5,x'')) = Inl ValueError"
    by (simp add: load_eval)
  ultimately have c: "main ascii_interpreter (Map.empty(''INTERVALS'' \<mapsto> ''5,x'')) = Crashed ValueError"
    by auto
  have "\<exists>e. load_module ascii_interpreter (Map.empty(''INTERVALS'' \<mapsto> [])) = Inl e
     \<and> main ascii_interpreter (Map.empty(''INTERVALS'' \<mapsto> [])) = Crashed e"
    using intervals_parsing [OF i, of "Map.empty(''INTERVALS'' \<mapsto> [])"]
    by (simp add: int_eval)
  moreover have "load_module ascii_interpreter (Map.empty(''INTERVALS'' \<mapsto> [])) = Inl ValueError"
    by (simp add: load_eval)
  ultimately have d: "main ascii_interpreter (Map.empty(''INTERVALS'' \<mapsto> [])) = Crashed ValueError"
    by auto
  from i a b c d show ?thesis by blast
qed

text \<open>
  Claim C9, as stated, fails: \<open>INTERVALS=-5,0\<close> is accepted at startup and the parsed
  list is \<open>[-5, 0]\<close>, whose elements are not positive. Nothing in the module checks the
  sign of an interval.
\<close>

theorem intervals_positive_counterexample:
  "load_module ascii_interpreter (Map.empty(''INTERVALS'' \<mapsto> ''-5,0'')) =
     Inr \<lparr>SERVICE_NAME = ''unknown'', TARGETS = [], INTERVALS = [- 5, 0]\<rparr>
   \<and> \<not> all_positive (INTERVALS \<lparr>SERVICE_NAME = ''unknown'', TARGETS = [], INTERVALS = [- 5, 0]\<rparr>)"
  by (simp add: load_eval all_positive_def)

text \<open>
  Claim C9, amended. For every configuration accepted at startup, an element of the
  parsed intervals list whose piece of the \<open>INTERVALS\<close> value is ASCII text of at most
  640 characters is positive exactly when that piece has no minus sign and has a digit
  other than 0.
\<close>

theorem interval_positive_iff:
  assumes "int_on_ascii I" and "load_module I env = Inr g"
    and "k < length (INTERVALS g)"
    and "py_split CHR '','' (getenv env ''INTERVALS'' ''60'') ! k = piece"
    and "is_ascii piece" and "length piece \<le> 640"
  shows "0 < INTERVALS g ! k \<longleftrightarrow>
           CHR ''-'' \<notin> set piece \<and> (\<exists>c \<in> set piece. is_digit c \<and> c \<noteq> CHR ''0'')"
proof -
  let ?pieces = "py_split CHR '','' (getenv env ''INTERVALS'' ''60'')"
  from assms(2) have "map_int I ?pieces = Inr (INTERVALS g)" by (rule load_module_Inr)
  then have m: "map (py_int I) ?pieces = map Inr (INTERVALS g)" by (simp only: map_int_Inr)
  then have "length ?pieces = length (INTERVALS g)" by (metis length_map)
  with assms(3) have k: "k < length ?pieces" by simp
  from m have "map (py_int I) ?pieces ! k = map Inr (INTERVALS g) ! k" by simp
  with k assms(3,4) have "py_int I piece = Inr (INTERVALS g ! k)" by simp
  moreover from assms(1,5,6) have "py_int I piece = ascii_int piece"
    unfolding int_on_ascii_def by blast
  ultimately have "ascii_int piece = Inr (INTERVALS g ! k)" by simp
  then show ?thesis by (rule ascii_int_positive)
qed

theorem interval_positive_iff_witness:
  "int_on_ascii ascii_interpreter
   \<and> load_module ascii_interpreter (Map.empty(''INTERVALS'' \<mapsto> ''-5, 10,0'')) =
       Inr \<lparr>SERVICE_NAME = ''unknown'', TARGETS = [], INTERVALS = [- 5, 10, 0]\<rparr>
   \<and> py_split CHR '','' ''-5, 10,0'' = [''-5'', '' 10'', ''0'']
   \<and> \<not> 0 < INTERVALS \<lparr>SERVICE_NAME = ''unknown'', TARGETS = [], INTERVALS = [- 5, 10, 0]\<rparr> ! 0
   \<and> 0 < INTERVALS \<lparr>SERVICE_NAME = ''unknown'', TARGETS = [], INTERVALS = [- 5, 10, 0]\<rparr> ! 1
   \<and> \<not> 0 < INTERVALS \<lparr>SERVICE_NAME = ''unknown'', TARGETS = [], INTERVALS = [- 5, 10, 0]\<rparr> ! 2"
proof -
  note i = int_on_ascii_interpreter
  have h: "load_module ascii_interpreter (Map.empty(''INTERVALS'' \<mapsto> ''-5, 10,0'')) =
       Inr \<lparr>SERVICE_NAME = ''unknown'', TARGETS = [], INTERVALS = [- 5, 10, 0]\<rparr>"
    by (simp add: load_eval)
  have p: "py_split CHR '','' ''-5, 10,0'' = [''-5'', '' 10'', ''0'']" by simp
  have a: "\<not> 0 < INTERVALS \<lparr>SERVICE_NAME = ''unknown'', TARGETS = [], INTERVALS = [- 5, 10, 0]\<rparr> ! 0"
    using interval_positive_iff [OF i h, of 0 "''-5''"] by (simp add: getenv_def is_ascii_def)
  have b: "0 < INTERVALS \<lparr>SERVICE_NAME = ''unknown'', TARGETS = [], INTERVALS = [- 5, 10, 0]\<rparr> ! 1"
    using interval_positive_iff [OF i h, of 1 "'' 10''"]
    by (simp add: getenv_def is_ascii_def is_digit_def)
  have c: "\<not> 0 < INTERVALS \<lparr>SERVICE_NAME = ''unknown'', TARGETS = [], INTERVALS = [- 5, 10, 0]\<rparr> ! 2"
    using interval_positive_iff [OF i h, of 2 "''0''"] by (simp add: getenv_def is_ascii_def)
  from i h p a b c show ?thesis by blast
qed

section \<open>The status endpoint\<close>

text \<open>
  Claim C6. For every configuration the module loads with, and whatever the poller
  threads have done, \<open>GET /health\<close> answers 200 with the body
  \<open>{"status": "healthy", "service": name}\<close>, where \<open>name\<close> is the configured service
  name: the value of \<open>SERVICE_NAME\<close>, or \<open>unknown\<close> when it is unset.
\<close>

theorem health_response:
  assumes "load_module I env = Inr g"
  shows "app_get \<lparr>module_globals = g, pollers = ts\<rparr> ''/health'' =
           Some (JObject [(''status'', JString ''healthy''),
                          (''service'', JString (getenv env ''SERVICE_NAME'' ''unknown''))], 200)
    \<and> SERVICE_NAME g = getenv env ''SERVICE_NAME'' ''unknown''"
  using load_module_Inr(1) [OF assms] by (simp add: app_get_def health_def)

theorem health_response_witness:
  "load_module ascii_interpreter (Map.empty(''SERVICE_NAME'' \<mapsto> ''svcA'', ''TARGETS'' \<mapsto> ''host1:9000'')) =
     Inr \<lparr>SERVICE_NAME = ''svcA'', TARGETS = [''host1:9000''], INTERVALS = [60]\<rparr>
   \<and> app_get \<lparr>module_globals = \<lparr>SERVICE_NAME = ''svcA'', TARGETS = [''host1:9000''], INTERVALS = [60]\<rparr>,
               pollers = [([], Died ValueError)]\<rparr> ''/health'' =
       Some (JObject [(''status'', JString ''healthy''), (''service'', JString ''svcA'')], 200)"
proof -
  have h: "load_module ascii_interpreter (Map.empty(''SERVICE_NAME'' \<mapsto> ''svcA'', ''TARGETS'' \<mapsto> ''host1:9000'')) =
     Inr \<lparr>SERVICE_NAME = ''svcA'', TARGETS = [''host1:9000''], INTERVALS = [60]\<rparr>"
    by (simp add: load_eval)
  from health_response [OF h, of "[([], Died ValueError)]"] h show ?thesis
    by (simp add: getenv_def)
qed

text \<open>
  Claim C7. For every configuration the module loads with, \<open>GET /\<close> answers 200 with
  the body holding the configured service name, the message \<open>Hello from name!\<close>, and the
  targets and intervals lists as they were parsed, element by element in the same
  order. The witness is the claim's example: \<open>SERVICE_NAME=svcA\<close>,
  \<open>TARGETS=host1:9000,host2:9000\<close>, \<open>INTERVALS=2\<close>.
\<close>

theorem index_response:
  assumes "load_module I env = Inr g"
  shows "app_get \<lparr>module_globals = g, pollers = ts\<rparr> ''/'' =
           Some (JObject [(''service'', JString (getenv env ''SERVICE_NAME'' ''unknown'')),
                          (''message'', JString (''Hello from '' @ getenv env ''SERVICE_NAME'' ''unknown'' @ ''!'')),
                          (''targets'', JArray (map JString (TARGETS g))),
                          (''intervals'', JArray (map JNumber (INTERVALS g)))], 200)"
  using load_module_Inr(1) [OF assms] by (simp add: app_get_def index_def)

theorem index_response_witness:
  "load_module ascii_interpreter (Map.empty(''SERVICE_NAME'' \<mapsto> ''svcA'', ''TARGETS'' \<mapsto> ''host1:9000,host2:9000'',
                          ''INTERVALS'' \<mapsto> ''2'')) =
     Inr \<lparr>SERVICE_NAME = ''svcA'', TARGETS = [''host1:9000'', ''host2:9000''], INTERVALS = [2]\<rparr>
   \<and> app_get \<lparr>module_globals = \<lparr>SERVICE_NAME = ''svcA'', TARGETS = [''host1:9000'', ''host2:9000''],
                                   INTERVALS = [2]\<rparr>,
               pollers = []\<rparr> ''/'' =
       Some (JObject [(''service'', JString ''svcA''),
                      (''message'', JString ''Hello from svcA!''),
                      (''targets'', JArray [JString ''host1:9000'', JString ''host2:9000'']),
                      (''intervals'', JArray [JNumber 2])], 200)"
proof -
  have h: "load_module ascii_interpreter (Map.empty(''SERVICE_NAME'' \<mapsto> ''svcA'', ''TARGETS'' \<mapsto> ''host1:9000,host2:9000'',
                          ''INTERVALS'' \<mapsto> ''2'')) =
     Inr \<lparr>SERVICE_NAME = ''svcA'', TARGETS = [''host1:9000'', ''host2:9000''], INTERVALS = [2]\<rparr>"
    by (simp add: load_eval)
  from index_response [OF h, of "[]"] h show ?thesis
    by (simp add: getenv_def)
qed

section \<open>Starting the poll tasks\<close>

lemma threads_of_start_loop:
  "threads_of (start_loop g xs) =
     map (\<lambda>(i, target). (target, if i < length (INTERVALS g) then INTERVALS g ! i else 60))
       (filter (\<lambda>(i, target). target \<noteq> []) xs)"
  by (induction g xs rule: start_loop.induct) (simp_all add: Let_def)

lemma threads_of_start_periodic_calls:
  "threads_of (start_periodic_calls g) =
     map (\<lambda>(i, target). (target, if i < length (INTERVALS g) then INTERVALS g ! i else 60))
       (filter (\<lambda>(i, target). target \<noteq> []) (enumerate 0 (TARGETS g)))"
  by (simp add: start_periodic_calls_def threads_of_start_loop)

lemma filter_enumerate_snd:
  "map snd (filter (\<lambda>(i, target). P target) (enumerate n xs)) = filter P xs"
  by (induction xs arbitrary: n) auto

lemma enumerate_split_at:
  assumes "i < length xs"
  shows "enumerate 0 xs = enumerate 0 (take i xs) @ (i, xs ! i) # enumerate (Suc i) (drop (Suc i) xs)"
proof -
  from assms have "xs = take i xs @ xs ! i # drop (Suc i) xs" by (rule id_take_nth_drop)
  then have "enumerate 0 xs = enumerate 0 (take i xs @ xs ! i # drop (Suc i) xs)" by simp
  also have "\<dots> = enumerate 0 (take i xs) @ (i, xs ! i) # enumerate (Suc i) (drop (Suc i) xs)"
    using assms by (simp add: enumerate_append_eq min_def)
  finally show ?thesis .
qed

text \<open>
  Claim C1. The threads are started in the order of the targets, one per non-empty
  target, so the task for the target at position \<open>i\<close> is the one preceded by as many tasks
  as there are non-empty targets before \<open>i\<close>. That task is started with the target at
  position \<open>i\<close> and with the interval \<open>INTERVALS[i]\<close> when \<open>i\<close> is an index of
  \<open>INTERVALS\<close>, and with 60 otherwise. The witness is the claim's example: targets
  \<open>a, b, c\<close> and intervals \<open>5, 10\<close> give the tasks \<open>(a, 5)\<close>, \<open>(b, 10)\<close>, \<open>(c, 60)\<close>.
\<close>

theorem positional_pairing:
  assumes "i < length (TARGETS g)" and "TARGETS g ! i \<noteq> []"
  shows "threads_of (start_periodic_calls g) ! length (filter (\<lambda>t. t \<noteq> []) (take i (TARGETS g))) =
           (TARGETS g ! i, if i < length (INTERVALS g) then INTERVALS g ! i else 60)"
proof -
  let ?keep = "\<lambda>(i, target). target \<noteq> ([] :: string)"
  let ?task = "\<lambda>(i, target). (target :: string, if i < length (INTERVALS g) then INTERVALS g ! i else 60)"
  let ?before = "filter ?keep (enumerate 0 (take i (TARGETS g)))"
  let ?after = "filter ?keep (enumerate (Suc i) (drop (Suc i) (TARGETS g)))"
  have "length (map snd ?before) = length (filter (\<lambda>t. t \<noteq> []) (take i (TARGETS g)))"
    by (simp only: filter_enumerate_snd)
  then have len: "length (filter (\<lambda>t. t \<noteq> []) (take i (TARGETS g))) = length (map ?task ?before)"
    by simp
  have "filter ?keep (enumerate 0 (TARGETS g)) = ?before @ (i, TARGETS g ! i) # ?after"
    using assms by (subst enumerate_split_at [OF assms(1)]) simp
  then have "threads_of (start_periodic_calls g) =
      map ?task ?before @ ?task (i, TARGETS g ! i) # map ?task ?after"
    by (simp add: threads_of_start_periodic_calls)
  then show ?thesis by (simp only: len nth_append_length) simp
qed

theorem positional_pairing_witness:
  "threads_of (start_periodic_calls \<lparr>SERVICE_NAME = ''svc'', TARGETS = [''a'', ''b'', ''c''], INTERVALS = [5, 10]\<rparr>) ! 0 = (''a'', 5)
   \<and> threads_of (start_periodic_calls \<lparr>SERVICE_NAME = ''svc'', TARGETS = [''a'', ''b'', ''c''], INTERVALS = [5, 10]\<rparr>) ! 1 = (''b'', 10)
   \<and> threads_of (start_periodic_calls \<lparr>SERVICE_NAME = ''svc'', TARGETS = [''a'', ''b'', ''c''], INTERVALS = [5, 10]\<rparr>) ! 2 = (''c'', 60)
   \<and> length (threads_of (start_periodic_calls \<lparr>SERVICE_NAME = ''svc'', TARGETS = [''a'', ''b'', ''c''], INTERVALS = [5, 10]\<rparr>)) = 3"
  using positional_pairing [of 0 "\<lparr>SERVICE_NAME = ''svc'', TARGETS = [''a'', ''b'', ''c''], INTERVALS = [5, 10]\<rparr>"]
    positional_pairing [of 1 "\<lparr>SERVICE_NAME = ''svc'', TARGETS = [''a'', ''b'', ''c''], INTERVALS = [5, 10]\<rparr>"]
    positional_pairing [of 2 "\<lparr>SERVICE_NAME = ''svc'', TARGETS = [''a'', ''b'', ''c''], INTERVALS = [5, 10]\<rparr>"]
  by (simp add: threads_of_start_periodic_calls enumerate_eq_zip upt_rec)

text \<open>
  Claim C2. The targets of the tasks started are exactly the non-empty entries of the
  targets list, in order; and each task's interval is looked up at the position its
  target has in the whole list, empty entries counted. The witness is the claim's
  example: for targets \<open>a\<close>, the empty string, \<open>b\<close>, two tasks are started, and \<open>b\<close> gets
  \<open>INTERVALS[2]\<close>, or 60 when \<open>INTERVALS\<close> has only two elements.
\<close>

theorem empty_targets_skipped:
  "map fst (threads_of (start_periodic_calls g)) = filter (\<lambda>t. t \<noteq> []) (TARGETS g)
   \<and> threads_of (start_periodic_calls g) =
       map (\<lambda>(i, target). (target, if i < length (INTERVALS g) then INTERVALS g ! i else 60))
         (filter (\<lambda>(i, target). target \<noteq> []) (enumerate 0 (TARGETS g)))"
proof -
  have "map fst (threads_of (start_periodic_calls g)) =
      map snd (filter (\<lambda>(i, target). target \<noteq> []) (enumerate 0 (TARGETS g)))"
    by (simp add: threads_of_start_periodic_calls split_def)
  then show ?thesis by (simp only: filter_enumerate_snd threads_of_start_periodic_calls)
qed

theorem empty_targets_skipped_witness:
  "threads_of (start_periodic_calls \<lparr>SERVICE_NAME = ''svc'', TARGETS = [''a'', [], ''b''], INTERVALS = [1, 2, 3]\<rparr>) =
     [(''a'', 1), (''b'', 3)]
   \<and> threads_of (start_periodic_calls \<lparr>SERVICE_NAME = ''svc'', TARGETS = [''a'', [], ''b''], INTERVALS = [1, 2]\<rparr>) =
     [(''a'', 1), (''b'', 60)]"
  using empty_targets_skipped [of "\<lparr>SERVICE_NAME = ''svc'', TARGETS = [''a'', [], ''b''], INTERVALS = [1, 2, 3]\<rparr>"]
    empty_targets_skipped [of "\<lparr>SERVICE_NAME = ''svc'', TARGETS = [''a'', [], ''b''], INTERVALS = [1, 2]\<rparr>"]
  by (simp add: enumerate_eq_zip upt_rec)

section \<open>The poll loop\<close>

lemma time_sleep_ok: "0 \<le> secs \<Longrightarrow> secs \<le> 9223372036 \<Longrightarrow> time_sleep True secs = Inr ()"
  by (simp add: time_sleep_def)

lemma make_request_run:
  assumes "list_all (\<lambda>t. time_sleep (snd t) interval = Inr ()) ticks"
  shows "make_request g target interval ticks =
           (concat (map (\<lambda>t. try_request g target (fst t) @ [Sleep interval]) ticks), Running)"
  using assms by (induction ticks) auto

lemma make_request_append:
  assumes "list_all (\<lambda>t. time_sleep (snd t) interval = Inr ()) ticks"
  shows "make_request g target interval (ticks @ later) =
           (fst (make_request g target interval ticks) @ fst (make_request g target interval later),
            snd (make_request g target interval later))"
  using assms by (induction ticks) (auto simp: split_def)


lemma run_pool_nth:
  assumes "j < length threads" and "j < length outcomes"
  shows "run_pool g threads outcomes ! j =
           make_request g (fst (threads ! j)) (snd (threads ! j)) (outcomes ! j)"
  using assms by (simp add: run_pool_def split_def)

lemma length_run_pool: "length (run_pool g threads outcomes) = min (length threads) (length outcomes)"
  by (simp add: run_pool_def)

lemma run_pool_update:
  assumes "k < length threads" and "k < length outcomes"
  shows "run_pool g threads (outcomes[k := ticks]) =
           (run_pool g threads outcomes)[k := make_request g (fst (threads ! k)) (snd (threads ! k)) ticks]"
proof (rule nth_equalityI)
  show "length (run_pool g threads (outcomes[k := ticks])) =
      length ((run_pool g threads outcomes)[k := make_request g (fst (threads ! k)) (snd (threads ! k)) ticks])"
    by (simp add: length_run_pool)
next
  fix j
  assume "j < length (run_pool g threads (outcomes[k := ticks]))"
  then have j: "j < length threads" "j < length outcomes" by (simp_all add: length_run_pool)
  then show "run_pool g threads (outcomes[k := ticks]) ! j =
      (run_pool g threads outcomes)[k := make_request g (fst (threads ! k)) (snd (threads ! k)) ticks] ! j"
    by (cases "j = k") (simp_all add: run_pool_nth length_run_pool)
qed




text \<open>
  Claim C3, as stated, fails for a task whose interval \<open>time.sleep\<close> refuses.
  \<open>TARGETS=x\<close> with \<open>INTERVALS=-1\<close> is accepted and starts the task \<open>(x, -1)\<close>; its first
  GET fails, the failure is caught and logged, and then \<open>time.sleep(-1)\<close>, which is
  outside the \<open>try\<close>, raises \<open>ValueError\<close>: the thread ends and never makes a second
  attempt.
\<close>

theorem transport_failure_counterexample:
  "load_module ascii_interpreter (Map.empty(''TARGETS'' \<mapsto> ''x'', ''INTERVALS'' \<mapsto> ''-1'')) =
     Inr \<lparr>SERVICE_NAME = ''unknown'', TARGETS = [''x''], INTERVALS = [- 1]\<rparr>
   \<and> threads_of (start_periodic_calls \<lparr>SERVICE_NAME = ''unknown'', TARGETS = [''x''], INTERVALS = [- 1]\<rparr>) =
     [(''x'', - 1)]
   \<and> make_request \<lparr>SERVICE_NAME = ''unknown'', TARGETS = [''x''], INTERVALS = [- 1]\<rparr> ''x'' (- 1)
       [(Raised ''Connection refused'', True), (Raised ''Connection refused'', True)] =
     ([LogInfo ''[unknown] Calling x...'', HttpGet ''http://x'' 5,
       LogError ''[unknown] Error calling x: Connection refused''],
      Died ValueError)"
  by (simp add: load_eval threads_of_start_periodic_calls try_request_def time_sleep_def)

text \<open>
  Claim C3, amended. For every poll task whose interval is between 0 and 9223372036
  seconds, every number of consecutive failed GETs, and a clock that accepts each sleep:
  each failure is caught and logged as an error and followed by a sleep of the task's
  interval, the thread is still in its loop afterwards, and it makes the next attempt.
  In the pool, only this task's entry changes, and the two routes answer as they do for
  any pool.
\<close>

theorem transport_failure_recovery:
  assumes "0 \<le> interval" and "interval \<le> 9223372036"
  shows "make_request g target interval (map (\<lambda>e. (Raised e, True)) es) =
           (concat (map (\<lambda>e. [LogInfo (''['' @ SERVICE_NAME g @ ''] Calling '' @ target @ ''...''),
                                HttpGet (''http://'' @ target) 5,
                                LogError (''['' @ SERVICE_NAME g @ ''] Error calling '' @ target @ '': '' @ e),
                                Sleep interval]) es),
            Running)
    \<and> make_request g target interval (map (\<lambda>e. (Raised e, True)) es @ [(r, True)]) =
           (fst (make_request g target interval (map (\<lambda>e. (Raised e, True)) es)) @
              try_request g target r @ [Sleep interval],
            Running)
    \<and> (k < length threads \<and> k < length outcomes \<and> threads ! k = (target, interval) \<longrightarrow>
         run_pool g threads (outcomes[k := map (\<lambda>e. (Raised e, True)) es]) =
           (run_pool g threads outcomes)
             [k := (concat (map (\<lambda>e. [LogInfo (''['' @ SERVICE_NAME g @ ''] Calling '' @ target @ ''...''),
                                HttpGet (''http://'' @ target) 5,
                                LogError (''['' @ SERVICE_NAME g @ ''] Error calling '' @ target @ '': '' @ e),
                                Sleep interval]) es),
                    Running)])
    \<and> app_get \<lparr>module_globals = g,
                pollers = run_pool g threads (outcomes[k := map (\<lambda>e. (Raised e, True)) es])\<rparr> ''/health'' =
         Some (health g)
    \<and> app_get \<lparr>module_globals = g,
                pollers = run_pool g threads (outcomes[k := map (\<lambda>e. (Raised e, True)) es])\<rparr> ''/'' =
         Some (index g)"
proof -
  let ?fails = "map (\<lambda>e. (Raised e, True)) es"
  let ?trace = "concat (map (\<lambda>e. [LogInfo (''['' @ SERVICE_NAME g @ ''] Calling '' @ target @ ''...''),
                                HttpGet (''http://'' @ target) 5,
                                LogError (''['' @ SERVICE_NAME g @ ''] Error calling '' @ target @ '': '' @ e),
                                Sleep interval]) es)"
  from assms have ok: "time_sleep True interval = Inr ()" by (rule time_sleep_ok)
  then have all: "list_all (\<lambda>t. time_sleep (snd t) interval = Inr ()) ?fails"
    by (simp add: list_all_iff)
  have a: "make_request g target interval ?fails = (?trace, Running)"
    by (simp add: make_request_run [OF all] try_request_def comp_def)
  have b: "make_request g target interval (?fails @ [(r, True)]) =
           (fst (make_request g target interval ?fails) @ try_request g target r @ [Sleep interval], Running)"
    by (simp add: make_request_append [OF all] ok)
  have c: "k < length threads \<and> k < length outcomes \<and> threads ! k = (target, interval) \<longrightarrow>
         run_pool g threads (outcomes[k := ?fails]) = (run_pool g threads outcomes)[k := (?trace, Running)]"
    using a by (simp add: run_pool_update)
  have d: "app_get \<lparr>module_globals = g, pollers = run_pool g threads (outcomes[k := ?fails])\<rparr> ''/health'' =
         Some (health g)"
    by (simp add: app_get_def)
  have e: "app_get \<lparr>module_globals = g, pollers = run_pool g threads (outcomes[k := ?fails])\<rparr> ''/'' =
         Some (index g)"
    by (simp add: app_get_def)
  from a b c d e show ?thesis by blast
qed

theorem transport_failure_recovery_witness:
  "make_request \<lparr>SERVICE_NAME = ''svc'', TARGETS = [''x'', ''y''], INTERVALS = [3]\<rparr> ''x'' 3
       [(Raised ''refused'', True), (Raised ''timed out'', True), (Raised ''refused'', True)] =
     ([LogInfo ''[svc] Calling x...'', HttpGet ''http://x'' 5, LogError ''[svc] Error calling x: refused'', Sleep 3,
       LogInfo ''[svc] Calling x...'', HttpGet ''http://x'' 5, LogError ''[svc] Error calling x: timed out'', Sleep 3,
       LogInfo ''[svc] Calling x...'', HttpGet ''http://x'' 5, LogError ''[svc] Error calling x: refused'', Sleep 3],
      Running)
   \<and> run_pool \<lparr>SERVICE_NAME = ''svc'', TARGETS = [''x'', ''y''], INTERVALS = [3]\<rparr> [(''x'', 3), (''y'', 60)]
       ([[], [(Response 200, True)]][0 := [(Raised ''refused'', True), (Raised ''timed out'', True)]]) =
     [([LogInfo ''[svc] Calling x...'', HttpGet ''http://x'' 5, LogError ''[svc] Error calling x: refused'', Sleep 3,
        LogInfo ''[svc] Calling x...'', HttpGet ''http://x'' 5, LogError ''[svc] Error calling x: timed out'', Sleep 3],
       Running),
      ([LogInfo ''[svc] Calling y...'', HttpGet ''http://y'' 5, LogInfo ''[svc] Response from y: 200'', Sleep 60],
       Running)]"
proof -
  have s: "py_str 200 = ''200''" by code_simp
  have i: "(0::int) \<le> 3" "(3::int) \<le> 9223372036" by simp_all
  from transport_failure_recovery [OF i, of "\<lparr>SERVICE_NAME = ''svc'', TARGETS = [''x'', ''y''], INTERVALS = [3]\<rparr>"
      "''x''" "[''refused'', ''timed out'']" "Raised ''refused''" 0 "[(''x'', 3), (''y'', 60)]"
      "[[], [(Response 200, True)]]"]
  show ?thesis by (simp add: try_request_def time_sleep_def run_pool_def s)
qed

end
